theory Spec2Isabelle
  imports Main "HOL-Library.Sublist"
begin

section \<open>singlefleet: the data model\<close>

text \<open>
  The package has two structs, \<^verbatim>\<open>batch\<close> and \<^verbatim>\<open>Fetcher\<close>, a callback type \<^verbatim>\<open>Job\<close> and three
  operations: \<^verbatim>\<open>NewFetcher\<close>, \<^verbatim>\<open>Fetch\<close> and \<^verbatim>\<open>FetchNow\<close> (with the helper \<^verbatim>\<open>doFetch\<close>).
  \<^verbatim>\<open>Fetch\<close> and \<^verbatim>\<open>FetchNow\<close> are called from many goroutines at once, so they are modelled
  as an interleaving of atomic steps, one per statement that touches shared memory, a
  lock, the wait group or the channel. The program points are named after the line of
  \<^verbatim>\<open>singlefleet.go\<close> they stand at.
\<close>

type_synonym ident = string
type_synonym addr = nat
type_synonym tid = nat

text \<open>
  \<^verbatim>\<open>type Job func(ids []string) (vals map[string]interface{}, err error)\<close>.
  A nil map reads like an empty one (\<^verbatim>\<open>vals[id]\<close> gives \<^verbatim>\<open>nil, false\<close>), so the mapping
  is a partial function; a nil error is \<open>None\<close>.
\<close>

type_synonym ('v, 'e) Job = "ident list \<Rightarrow> (ident \<rightharpoonup> 'v) \<times> 'e option"

text \<open>
  The unbuffered channel \<^verbatim>\<open>csig\<close>. A send completes only together with a receive, and the
  only receiver of a batch's channel is its opener inside the \<^verbatim>\<open>select\<close> of line 112:
  \<open>Chan_Recv\<close> says that the receiver is blocked there, \<open>Chan_Got\<close> that a sender has handed
  its value over to it and the receiver has not run yet. \<open>Chan_Nil\<close> is the zero value of
  the field, \<open>Chan_Idle\<close> a made channel nobody is receiving from.
\<close>

datatype chan = Chan_Nil | Chan_Idle | Chan_Recv | Chan_Got | Chan_Closed

record ('v, 'e) batch =
  b_vals :: "ident \<rightharpoonup> 'v"
  b_err :: "'e option"
  b_ids :: "ident list"
  b_mu :: bool
  b_wg :: nat
  b_csig :: chan

record ('v, 'e) Fetcher =
  fc_maxw :: int
  fc_maxb :: int
  fc_mu :: bool
  fc_m :: "ident \<rightharpoonup> addr"
  fc_b :: "addr option"
  fc_f :: "('v, 'e) Job option"

text \<open>
  \<^verbatim>\<open>NewFetcher\<close> (lines 49 to 56) stores its three arguments and makes the empty registry.
  The job may be the nil function (\<open>None\<close>); nothing is checked.
\<close>

definition NewFetcher :: "('v, 'e) Job option \<Rightarrow> int \<Rightarrow> int \<Rightarrow> ('v, 'e) Fetcher" where
  "NewFetcher job maxWait maxBatch =
     \<lparr>fc_maxw = maxWait, fc_maxb = maxBatch, fc_mu = False, fc_m = Map.empty,
      fc_b = None, fc_f = job\<rparr>"

section \<open>Goroutines inside Fetch and FetchNow\<close>

text \<open>
  A goroutine is at a program point and holds its local variables \<^verbatim>\<open>id\<close> and \<^verbatim>\<open>b\<close>.
  \<open>F\<close>\<open>n\<close> is line \<open>n\<close> of \<^verbatim>\<open>Fetch\<close>, about to be executed; \<open>N\<close>\<open>n\<close> is line \<open>n\<close> of
  \<^verbatim>\<open>FetchNow\<close>. Lines 61 to 70 serve an id that is already registered, lines 73 to 95 join
  the pending batch, lines 99 to 132 open a new batch.
\<close>

datatype ('v, 'e) pc =
    Idle
  | F61 ident
  | F64 ident
  | F66 ident addr
  | F67 ident addr
  | F68 ident addr
  | F73 ident
  | F76 ident addr
  | F77 ident addr
  | F78 ident addr
  | F79 ident addr
  | F80 ident addr
  | F81 ident addr
  | F82 ident addr
  | F84 ident addr
  | F87 ident addr
  | F90 ident addr
  | F91 ident addr
  | F92 ident addr
  | F94 ident addr
  | F99 ident
  | F106 ident addr
  | F107 ident addr
  | F108 ident addr
  | F111 ident addr
  | F112 ident addr
  | F114 ident addr
  | F115 ident addr
  | F117 ident addr
  | F119 ident addr
  | F120 ident addr
  | F123 ident addr
  | F124 ident addr
  | F127 ident addr
  | F128 ident addr
  | F129 ident addr
  | F131 ident addr
  | N138
  | N141
  | N142
  | N147 addr
  | Ret_Fetch ident addr "'v option" bool "'e option"
  | Ret_FetchNow bool
  | Panicked

text \<open>The runtime faults the code can raise; any of them ends the whole program.\<close>

datatype fault =
    Makeslice_Cap
  | Nil_Func_Call
  | Send_On_Closed
  | Close_Of_Closed
  | Unlock_Of_Unlocked
  | Negative_WaitGroup

text \<open>
  The whole program state: the Fetcher, the batches it has allocated (\<open>heap\<close>, with \<open>nextb\<close>
  the next fresh address), the goroutines, the fault that ended the program if any, and
  the log of the job's invocations (batch and identifier list passed). \<open>cap_max\<close> is a
  constant of the platform the program runs on: the largest capacity the runtime grants
  to \<^verbatim>\<open>make([]string, 0, n)\<close>. A larger request ends the program like a negative one; in
  \<^verbatim>\<open>makeslice\<close> the bound is \<^verbatim>\<open>maxAlloc\<close> divided by the size of a string header.
\<close>

record ('v, 'e) world = "('v, 'e) Fetcher" +
  heap :: "addr \<Rightarrow> ('v, 'e) batch"
  nextb :: addr
  thr :: "tid \<Rightarrow> ('v, 'e) pc"
  crashed :: "fault option"
  calls :: "(addr \<times> ident list) list"
  cap_max :: int

definition zero_batch :: "('v, 'e) batch" where
  "zero_batch = \<lparr>b_vals = Map.empty, b_err = None, b_ids = [], b_mu = False, b_wg = 0,
     b_csig = Chan_Nil\<rparr>"

text \<open>The program before any goroutine has called in, on a platform with capacity limit \<open>lim\<close>.\<close>

definition init :: "int \<Rightarrow> ('v, 'e) Fetcher \<Rightarrow> ('v, 'e) world" where
  "init lim fc = \<lparr>fc_maxw = fc_maxw fc, fc_maxb = fc_maxb fc, fc_mu = fc_mu fc, fc_m = fc_m fc,
     fc_b = fc_b fc, fc_f = fc_f fc,
     heap = (\<lambda>_. zero_batch), nextb = 0, thr = (\<lambda>_. Idle), crashed = None, calls = [],
     cap_max = lim\<rparr>"

text \<open>
  On 64-bit Linux the heap addresses have 48 bits and a string header takes 16 bytes, so
  \<^verbatim>\<open>makeslice\<close> refuses a capacity above \<open>2\<^sup>4\<^sup>4\<close>; the concrete runs below take this platform
  (their capacities are at most 1000).
\<close>

definition cap_amd64 :: int where
  "cap_amd64 = 17592186044416"

subsection \<open>The primitives\<close>

definition goto :: "tid \<Rightarrow> ('v, 'e) pc \<Rightarrow> ('v, 'e) world \<Rightarrow> ('v, 'e) world" where
  "goto t p s = s\<lparr>thr := (thr s)(t := p)\<rparr>"

definition panic :: "fault \<Rightarrow> tid \<Rightarrow> ('v, 'e) world \<Rightarrow> ('v, 'e) world" where
  "panic x t s = s\<lparr>thr := (thr s)(t := Panicked), crashed := Some x\<rparr>"

definition upd_batch ::
  "addr \<Rightarrow> (('v, 'e) batch \<Rightarrow> ('v, 'e) batch) \<Rightarrow> ('v, 'e) world \<Rightarrow> ('v, 'e) world" where
  "upd_batch b g s = s\<lparr>heap := (heap s)(b := g (heap s b))\<rparr>"

text \<open>\<^verbatim>\<open>fc.mu.Lock()\<close> blocks (no step, \<open>None\<close>) while the mutex is held.\<close>

definition fc_lock :: "tid \<Rightarrow> ('v, 'e) pc \<Rightarrow> ('v, 'e) world \<Rightarrow> ('v, 'e) world option" where
  "fc_lock t p s = (if fc_mu s then None else Some (goto t p (s\<lparr>fc_mu := True\<rparr>)))"

text \<open>
  \<^verbatim>\<open>fc.mu.Unlock()\<close>. A Go mutex has no owner: any goroutine may unlock it, and unlocking
  a mutex that is not locked is a fatal error.
\<close>

definition fc_unlock :: "tid \<Rightarrow> ('v, 'e) pc \<Rightarrow> ('v, 'e) world \<Rightarrow> ('v, 'e) world option" where
  "fc_unlock t p s =
     (if fc_mu s then Some (goto t p (s\<lparr>fc_mu := False\<rparr>))
      else Some (panic Unlock_Of_Unlocked t s))"

text \<open>\<^verbatim>\<open>b.wg.Wait()\<close> blocks until the counter is zero.\<close>

definition wg_wait ::
  "addr \<Rightarrow> tid \<Rightarrow> ('v, 'e) pc \<Rightarrow> ('v, 'e) world \<Rightarrow> ('v, 'e) world option" where
  "wg_wait b t p s = (if b_wg (heap s b) = 0 then Some (goto t p s) else None)"

text \<open>
  \<^verbatim>\<open>b.csig <- struct{}{}\<close>: the send goes through when the receiver is blocked in its
  \<^verbatim>\<open>select\<close>, panics on a closed channel and blocks otherwise.
\<close>

definition chan_send ::
  "addr \<Rightarrow> tid \<Rightarrow> ('v, 'e) pc \<Rightarrow> ('v, 'e) world \<Rightarrow> ('v, 'e) world option" where
  "chan_send b t p s =
     (case b_csig (heap s b) of
        Chan_Recv \<Rightarrow> Some (goto t p (upd_batch b (\<lambda>x. x\<lparr>b_csig := Chan_Got\<rparr>) s))
      | Chan_Closed \<Rightarrow> Some (panic Send_On_Closed t s)
      | _ \<Rightarrow> None)"

text \<open>\<^verbatim>\<open>val, ok = b.vals[id]; return val, ok, b.err\<close> (lines 68, 94 and 131).\<close>

definition ret_fetch :: "ident \<Rightarrow> addr \<Rightarrow> ('v, 'e) world \<Rightarrow> ('v, 'e) pc" where
  "ret_fetch i b s =
     Ret_Fetch i b (b_vals (heap s b) i) (b_vals (heap s b) i \<noteq> None) (b_err (heap s b))"

text \<open>
  Lines 99 to 105: the new batch, local to its opener until line 106 publishes it. Its
  wait group counts one, its identifier list holds the opener's id, its channel is made.
  \<^verbatim>\<open>make([]string, 0, fc.maxb)\<close> panics (\<^verbatim>\<open>makeslice: cap out of range\<close>) when the capacity is
  negative or above the platform's limit; the test is in \<open>exec\<close>, at the program point \<open>F99\<close>.
\<close>

definition new_batch :: "ident \<Rightarrow> ('v, 'e) batch" where
  "new_batch i = \<lparr>b_vals = Map.empty, b_err = None, b_ids = [i], b_mu = False, b_wg = 1,
     b_csig = Chan_Idle\<rparr>"

text \<open>\<^verbatim>\<open>doFetch\<close> (line 154): \<^verbatim>\<open>c.vals, c.err = fc.f(c.ids)\<close>; calling a nil function panics.\<close>

definition doFetch :: "addr \<Rightarrow> tid \<Rightarrow> ('v, 'e) pc \<Rightarrow> ('v, 'e) world \<Rightarrow> ('v, 'e) world option" where
  "doFetch c t p s =
     (case fc_f s of
        None \<Rightarrow> Some (panic Nil_Func_Call t s)
      | Some job \<Rightarrow>
          Some (goto t p
            ((upd_batch c (\<lambda>x. x\<lparr>b_vals := fst (job (b_ids (heap s c))),
                                 b_err := snd (job (b_ids (heap s c)))\<rparr>) s)
               \<lparr>calls := calls s @ [(c, b_ids (heap s c))]\<rparr>)))"

subsection \<open>One step of one goroutine\<close>

primrec exec :: "('v, 'e) pc \<Rightarrow> tid \<Rightarrow> ('v, 'e) world \<Rightarrow> ('v, 'e) world option" where
  "exec Idle t s = None"
| "exec (F61 i) t s = fc_lock t (F64 i) s"
| "exec (F64 i) t s =
     Some (goto t (case fc_m s i of Some b \<Rightarrow> F66 i b | None \<Rightarrow> F73 i) s)"
| "exec (F66 i b) t s = fc_unlock t (F67 i b) s"
| "exec (F67 i b) t s = wg_wait b t (F68 i b) s"
| "exec (F68 i b) t s = Some (goto t (ret_fetch i b s) s)"
| "exec (F73 i) t s =
     Some (goto t (case fc_b s of Some b \<Rightarrow> F76 i b | None \<Rightarrow> F99 i) s)"
| "exec (F76 i b) t s = Some (goto t (F77 i b) (s\<lparr>fc_m := (fc_m s)(i \<mapsto> b)\<rparr>))"
| "exec (F77 i b) t s = fc_unlock t (F78 i b) s"
| "exec (F78 i b) t s =
     (if b_mu (heap s b) then None
      else Some (goto t (F79 i b) (upd_batch b (\<lambda>x. x\<lparr>b_mu := True\<rparr>) s)))"
| "exec (F79 i b) t s =
     Some (goto t (F80 i b) (upd_batch b (\<lambda>x. x\<lparr>b_ids := b_ids x @ [i]\<rparr>) s))"
| "exec (F80 i b) t s =
     Some (goto t (if fc_maxb s \<le> int (length (b_ids (heap s b))) then F81 i b else F84 i b) s)"
| "exec (F81 i b) t s = fc_lock t (F82 i b) s"
| "exec (F82 i b) t s = chan_send b t (F84 i b) s"
| "exec (F84 i b) t s =
     (if b_mu (heap s b) then Some (goto t (F87 i b) (upd_batch b (\<lambda>x. x\<lparr>b_mu := False\<rparr>) s))
      else Some (panic Unlock_Of_Unlocked t s))"
| "exec (F87 i b) t s = wg_wait b t (F90 i b) s"
| "exec (F90 i b) t s = fc_lock t (F91 i b) s"
| "exec (F91 i b) t s = Some (goto t (F92 i b) (s\<lparr>fc_m := (fc_m s)(i := None)\<rparr>))"
| "exec (F92 i b) t s = fc_unlock t (F94 i b) s"
| "exec (F94 i b) t s = Some (goto t (ret_fetch i b s) s)"
| "exec (F99 i) t s =
     (if fc_maxb s < 0 \<or> cap_max s < fc_maxb s then Some (panic Makeslice_Cap t s)
      else Some (goto t (F106 i (nextb s))
                  (s\<lparr>heap := (heap s)(nextb s := new_batch i), nextb := Suc (nextb s)\<rparr>)))"
| "exec (F106 i b) t s = Some (goto t (F107 i b) (s\<lparr>fc_b := Some b\<rparr>))"
| "exec (F107 i b) t s = Some (goto t (F108 i b) (s\<lparr>fc_m := (fc_m s)(i \<mapsto> b)\<rparr>))"
| "exec (F108 i b) t s = fc_unlock t (F111 i b) s"
| "exec (F111 i b) t s =
     Some (goto t (F112 i b) (upd_batch b (\<lambda>x. x\<lparr>b_csig := Chan_Recv\<rparr>) s))"
| "exec (F112 i b) t s =
     (case b_csig (heap s b) of
        Chan_Got \<Rightarrow> Some (goto t (F117 i b) (upd_batch b (\<lambda>x. x\<lparr>b_csig := Chan_Idle\<rparr>) s))
      | _ \<Rightarrow> None)"
| "exec (F114 i b) t s = fc_lock t (F115 i b) s"
| "exec (F115 i b) t s =
     (case b_csig (heap s b) of
        Chan_Closed \<Rightarrow> Some (panic Close_Of_Closed t s)
      | Chan_Nil \<Rightarrow> Some (panic Close_Of_Closed t s)
      | _ \<Rightarrow> Some (goto t (F119 i b) (upd_batch b (\<lambda>x. x\<lparr>b_csig := Chan_Closed\<rparr>) s)))"
| "exec (F117 i b) t s = Some (goto t (F119 i b) s)"
| "exec (F119 i b) t s = Some (goto t (F120 i b) (s\<lparr>fc_b := None\<rparr>))"
| "exec (F120 i b) t s = fc_unlock t (F123 i b) s"
| "exec (F123 i b) t s = doFetch b t (F124 i b) s"
| "exec (F124 i b) t s =
     (if b_wg (heap s b) = 0 then Some (panic Negative_WaitGroup t s)
      else Some (goto t (F127 i b) (upd_batch b (\<lambda>x. x\<lparr>b_wg := b_wg x - 1\<rparr>) s)))"
| "exec (F127 i b) t s = fc_lock t (F128 i b) s"
| "exec (F128 i b) t s = Some (goto t (F129 i b) (s\<lparr>fc_m := (fc_m s)(i := None)\<rparr>))"
| "exec (F129 i b) t s = fc_unlock t (F131 i b) s"
| "exec (F131 i b) t s = Some (goto t (ret_fetch i b s) s)"
| "exec N138 t s = fc_lock t N141 s"
| "exec N141 t s =
     Some (goto t (case fc_b s of None \<Rightarrow> N142 | Some b \<Rightarrow> N147 b) s)"
| "exec N142 t s = fc_unlock t (Ret_FetchNow False) s"
| "exec (N147 b) t s = chan_send b t (Ret_FetchNow True) s"
| "exec (Ret_Fetch i b v ok e) t s = None"
| "exec (Ret_FetchNow r) t s = None"
| "exec Panicked t s = None"

text \<open>
  The timer of line 111 is not measured: that \<^verbatim>\<open>maxWait\<close> has elapsed is an event of the
  environment, \<open>Timeout\<close>, which makes the \<^verbatim>\<open>select\<close> of the opener take \<^verbatim>\<open>case <-t.C\<close>
  provided no sender has handed it a signal before.
\<close>

definition timeout :: "('v, 'e) pc \<Rightarrow> tid \<Rightarrow> ('v, 'e) world \<Rightarrow> ('v, 'e) world option" where
  "timeout p t s =
     (case p of
        F112 i b \<Rightarrow>
          (if b_csig (heap s b) = Chan_Recv
           then Some (goto t (F114 i b) (upd_batch b (\<lambda>x. x\<lparr>b_csig := Chan_Idle\<rparr>) s))
           else None)
      | _ \<Rightarrow> None)"

datatype event = Go_Fetch tid ident | Go_FetchNow tid | Run tid | Timeout tid

definition step :: "event \<Rightarrow> ('v, 'e) world \<Rightarrow> ('v, 'e) world option" where
  "step ev s =
     (if crashed s \<noteq> None then None
      else case ev of
        Go_Fetch t i \<Rightarrow> (if thr s t = Idle then Some (goto t (F61 i) s) else None)
      | Go_FetchNow t \<Rightarrow> (if thr s t = Idle then Some (goto t N138 s) else None)
      | Run t \<Rightarrow> exec (thr s t) t s
      | Timeout t \<Rightarrow> timeout (thr s t) t s)"

fun run :: "event list \<Rightarrow> ('v, 'e) world \<Rightarrow> ('v, 'e) world option" where
  "run [] s = Some s"
| "run (ev # evs) s = (case step ev s of None \<Rightarrow> None | Some s' \<Rightarrow> run evs s')"

inductive reachable :: "int \<Rightarrow> ('v, 'e) Fetcher \<Rightarrow> ('v, 'e) world \<Rightarrow> bool" for lim fc where
  reach_init: "reachable lim fc (init lim fc)"
| reach_step: "reachable lim fc s \<Longrightarrow> step ev s = Some s' \<Longrightarrow> reachable lim fc s'"

section \<open>Invariants of the interleaving\<close>

text \<open>
  The program points are classified by what the goroutine standing there has done:
  \<open>bat_of\<close> is its local \<^verbatim>\<open>b\<close>; \<open>opener_of\<close> says that it created that batch (lines 106 to
  131); \<open>before_call\<close> that it created it and has not yet run \<^verbatim>\<open>doFetch\<close>; \<open>after_barrier\<close>
  that it is past \<^verbatim>\<open>b.wg.Wait()\<close> or \<^verbatim>\<open>b.wg.Done()\<close>.
\<close>

fun bat_of :: "('v, 'e) pc \<Rightarrow> addr option" where
  "bat_of (F66 i b) = Some b" | "bat_of (F67 i b) = Some b" | "bat_of (F68 i b) = Some b"
| "bat_of (F76 i b) = Some b" | "bat_of (F77 i b) = Some b" | "bat_of (F78 i b) = Some b"
| "bat_of (F79 i b) = Some b" | "bat_of (F80 i b) = Some b" | "bat_of (F81 i b) = Some b"
| "bat_of (F82 i b) = Some b" | "bat_of (F84 i b) = Some b" | "bat_of (F87 i b) = Some b"
| "bat_of (F90 i b) = Some b" | "bat_of (F91 i b) = Some b" | "bat_of (F92 i b) = Some b"
| "bat_of (F94 i b) = Some b" | "bat_of (F106 i b) = Some b" | "bat_of (F107 i b) = Some b"
| "bat_of (F108 i b) = Some b" | "bat_of (F111 i b) = Some b" | "bat_of (F112 i b) = Some b"
| "bat_of (F114 i b) = Some b" | "bat_of (F115 i b) = Some b" | "bat_of (F117 i b) = Some b"
| "bat_of (F119 i b) = Some b" | "bat_of (F120 i b) = Some b" | "bat_of (F123 i b) = Some b"
| "bat_of (F124 i b) = Some b" | "bat_of (F127 i b) = Some b" | "bat_of (F128 i b) = Some b"
| "bat_of (F129 i b) = Some b" | "bat_of (F131 i b) = Some b" | "bat_of (N147 b) = Some b"
| "bat_of (Ret_Fetch i b v ok e) = Some b"
| "bat_of _ = None"

fun opener_of :: "('v, 'e) pc \<Rightarrow> addr option" where
  "opener_of (F106 i b) = Some b" | "opener_of (F107 i b) = Some b"
| "opener_of (F108 i b) = Some b" | "opener_of (F111 i b) = Some b" | "opener_of (F112 i b) = Some b"
| "opener_of (F114 i b) = Some b" | "opener_of (F115 i b) = Some b" | "opener_of (F117 i b) = Some b"
| "opener_of (F119 i b) = Some b" | "opener_of (F120 i b) = Some b" | "opener_of (F123 i b) = Some b"
| "opener_of (F124 i b) = Some b" | "opener_of (F127 i b) = Some b" | "opener_of (F128 i b) = Some b"
| "opener_of (F129 i b) = Some b" | "opener_of (F131 i b) = Some b"
| "opener_of _ = None"

fun before_call :: "('v, 'e) pc \<Rightarrow> addr option" where
  "before_call (F106 i b) = Some b" | "before_call (F107 i b) = Some b"
| "before_call (F108 i b) = Some b" | "before_call (F111 i b) = Some b" | "before_call (F112 i b) = Some b"
| "before_call (F114 i b) = Some b" | "before_call (F115 i b) = Some b" | "before_call (F117 i b) = Some b"
| "before_call (F119 i b) = Some b" | "before_call (F120 i b) = Some b" | "before_call (F123 i b) = Some b"
| "before_call _ = None"

fun after_barrier :: "('v, 'e) pc \<Rightarrow> addr option" where
  "after_barrier (F68 i b) = Some b"
| "after_barrier (F90 i b) = Some b" | "after_barrier (F91 i b) = Some b" | "after_barrier (F92 i b) = Some b"
| "after_barrier (F94 i b) = Some b" | "after_barrier (F127 i b) = Some b" | "after_barrier (F128 i b) = Some b"
| "after_barrier (F129 i b) = Some b" | "after_barrier (F131 i b) = Some b"
| "after_barrier (Ret_Fetch i b v ok e) = Some b"
| "after_barrier _ = None"

text \<open>The job has been invoked for batch \<open>b\<close>.\<close>

definition was_called :: "('v, 'e) world \<Rightarrow> addr \<Rightarrow> bool" where
  "was_called s b \<longleftrightarrow> b \<in> fst ` set (calls s)"


definition inv_fresh :: "('v, 'e) world \<Rightarrow> bool" where
  "inv_fresh s \<longleftrightarrow>
     (\<forall>t b. bat_of (thr s t) = Some b \<longrightarrow> b < nextb s) \<and>
     (\<forall>b. fc_b s = Some b \<longrightarrow> b < nextb s) \<and>
     (\<forall>i b. fc_m s i = Some b \<longrightarrow> b < nextb s) \<and>
     (\<forall>b. was_called s b \<longrightarrow> b < nextb s)"

definition inv_wg :: "('v, 'e) world \<Rightarrow> bool" where
  "inv_wg s \<longleftrightarrow> (\<forall>b. b_wg (heap s b) \<le> 1)"

definition inv_opener :: "('v, 'e) world \<Rightarrow> bool" where
  "inv_opener s \<longleftrightarrow>
     (\<forall>t t' b. opener_of (thr s t) = Some b \<longrightarrow> opener_of (thr s t') = Some b \<longrightarrow> t = t')"

definition inv_uncalled :: "('v, 'e) world \<Rightarrow> bool" where
  "inv_uncalled s \<longleftrightarrow> (\<forall>t b. before_call (thr s t) = Some b \<longrightarrow> \<not> was_called s b)"

definition inv_once :: "('v, 'e) world \<Rightarrow> bool" where
  "inv_once s \<longleftrightarrow> distinct (map fst (calls s))"

definition inv_barrier :: "('v, 'e) world \<Rightarrow> bool" where
  "inv_barrier s \<longleftrightarrow>
     (\<forall>t b. after_barrier (thr s t) = Some b \<longrightarrow> b_wg (heap s b) = 0) \<and>
     (\<forall>t i b. thr s t = F124 i b \<longrightarrow> was_called s b) \<and>
     (\<forall>b. b < nextb s \<longrightarrow> b_wg (heap s b) = 0 \<longrightarrow> was_called s b)"

definition inv_result :: "('v, 'e) world \<Rightarrow> bool" where
  "inv_result s \<longleftrightarrow>
     (\<forall>b L job. (b, L) \<in> set (calls s) \<longrightarrow> fc_f s = Some job \<longrightarrow>
        b_vals (heap s b) = fst (job L) \<and> b_err (heap s b) = snd (job L))"

definition inv_prefix :: "('v, 'e) world \<Rightarrow> bool" where
  "inv_prefix s \<longleftrightarrow> (\<forall>b L. (b, L) \<in> set (calls s) \<longrightarrow> prefix L (b_ids (heap s b)))"

definition inv_ret :: "('v, 'e) world \<Rightarrow> bool" where
  "inv_ret s \<longleftrightarrow>
     (\<forall>t i b v ok e. thr s t = Ret_Fetch i b v ok e \<longrightarrow>
        was_called s b \<and> v = b_vals (heap s b) i \<and> ok = (v \<noteq> None) \<and> e = b_err (heap s b))"


definition inv_config :: "('v, 'e) Fetcher \<Rightarrow> ('v, 'e) world \<Rightarrow> bool" where
  "inv_config fc s \<longleftrightarrow>
     fc_f s = fc_f fc \<and> fc_maxb s = fc_maxb fc \<and> fc_maxw s = fc_maxw fc"

definition inv1 :: "('v, 'e) world \<Rightarrow> bool" where
  "inv1 s \<longleftrightarrow> inv_fresh s \<and> inv_wg s \<and> inv_opener s \<and> inv_uncalled s \<and> inv_once s \<and>
     inv_barrier s \<and> inv_result s \<and> inv_prefix s \<and> inv_ret s"


section \<open>Jobs and schedules used as concrete inputs\<close>

text \<open>
  A job that answers every id (as in \<^verbatim>\<open>TestFetchSingle\<close>) and a job that returns a
  mapping together with an error.
\<close>

definition upper_job :: "(string, string) Job" where
  "upper_job ids = (map_of (map (\<lambda>i. (i, i @ ''!'')) ids), None)"

definition err_job :: "(string, string) Job" where
  "err_job ids = ([''a'' \<mapsto> ''ABC''], Some ''error'')"

text \<open>
  A schedule lists who moves next. \<open>one_alone\<close>: a single \<^verbatim>\<open>Fetch("a")\<close> whose batch is sealed
  by the timer.
\<close>

definition one_alone :: "event list" where
  "one_alone =
     [Go_Fetch 0 ''a'', Run 0, Run 0, Run 0, Run 0, Run 0, Run 0, Run 0, Run 0,
      Timeout 0, Run 0, Run 0, Run 0, Run 0, Run 0, Run 0, Run 0, Run 0, Run 0, Run 0]"


text \<open>
  \<open>registered_again\<close>: a \<^verbatim>\<open>Fetch("a")\<close> opens a batch and waits in its \<^verbatim>\<open>select\<close>; a second
  \<^verbatim>\<open>Fetch("a")\<close> takes the lock and stands at line 64.
\<close>

definition registered_again :: "event list" where
  "registered_again =
     [Go_Fetch 0 ''a'', Run 0, Run 0, Run 0, Run 0, Run 0, Run 0, Run 0, Run 0,
      Go_Fetch 1 ''a'', Run 1]"

text \<open>
  \<open>three_paths\<close>: \<^verbatim>\<open>Fetch("a")\<close> opens a batch, \<^verbatim>\<open>Fetch("b")\<close> joins it and a second \<^verbatim>\<open>Fetch("a")\<close>
  finds the id registered; the timer expires and the three return, the last one standing
  at line 68 after \<open>three_paths_68\<close>.
\<close>

definition three_paths_68 :: "event list" where
  "three_paths_68 =
     [Go_Fetch 0 ''a'', Run 0, Run 0, Run 0, Run 0, Run 0, Run 0, Run 0, Run 0,
      Go_Fetch 1 ''b'', Run 1, Run 1, Run 1, Run 1, Run 1, Run 1, Run 1, Run 1, Run 1,
      Go_Fetch 2 ''a'', Run 2, Run 2, Run 2,
      Timeout 0, Run 0, Run 0, Run 0, Run 0, Run 0, Run 0, Run 0, Run 0, Run 0, Run 0,
      Run 1, Run 1, Run 1, Run 1, Run 1,
      Run 2]"

definition three_paths :: "event list" where
  "three_paths = three_paths_68 @ [Run 2]"

text \<open>
  \<open>opener_done\<close>: \<^verbatim>\<open>Fetch("a")\<close> opens a batch, \<^verbatim>\<open>Fetch("b")\<close> joins it, the timer expires and
  the opener runs the job and returns; the joiner still waits at line 87.
\<close>

definition opener_done :: "event list" where
  "opener_done =
     [Go_Fetch 0 ''a'', Run 0, Run 0, Run 0, Run 0, Run 0, Run 0, Run 0, Run 0,
      Go_Fetch 1 ''b'', Run 1, Run 1, Run 1, Run 1, Run 1, Run 1, Run 1, Run 1, Run 1,
      Timeout 0, Run 0, Run 0, Run 0, Run 0, Run 0, Run 0, Run 0, Run 0, Run 0, Run 0]"

text \<open>
  Schedules in which a joiner is slow between registering its id (line 76) and appending it
  (line 79). \<open>late_append\<close>: \<^verbatim>\<open>Fetch("a")\<close> opens a batch, \<^verbatim>\<open>Fetch("b")\<close> registers and unlocks,
  the timer expires and the opener closes the batch and runs the job; \<open>late_append_rest\<close>:
  the joiner appends, the opener finishes, the joiner finishes. \<open>three_submitted\<close>: three
  calls, the third of which has registered; \<open>three_finish\<close>: the timer expires, the opener
  and the first joiner run to their return, then the third goroutine does.
\<close>

definition late_append :: "event list" where
  "late_append =
     [Go_Fetch 0 ''a'', Run 0, Run 0, Run 0, Run 0, Run 0, Run 0, Run 0, Run 0,
      Go_Fetch 1 ''b'', Run 1, Run 1, Run 1, Run 1, Run 1,
      Timeout 0, Run 0, Run 0, Run 0, Run 0, Run 0]"

definition late_append_rest :: "event list" where
  "late_append_rest =
     [Run 1, Run 1,
      Run 0, Run 0, Run 0, Run 0, Run 0,
      Run 1, Run 1, Run 1, Run 1, Run 1, Run 1, Run 1]"

definition three_submitted :: "event list" where
  "three_submitted =
     [Go_Fetch 0 ''a'', Run 0, Run 0, Run 0, Run 0, Run 0, Run 0, Run 0, Run 0,
      Go_Fetch 1 ''b'', Run 1, Run 1, Run 1, Run 1, Run 1, Run 1, Run 1, Run 1, Run 1,
      Go_Fetch 2 ''c'', Run 2, Run 2, Run 2, Run 2, Run 2]"

definition three_finish :: "event list" where
  "three_finish =
     [Timeout 0, Run 0, Run 0, Run 0, Run 0, Run 0, Run 0, Run 0, Run 0, Run 0, Run 0,
      Run 1, Run 1, Run 1, Run 1, Run 1,
      Run 2, Run 2, Run 2, Run 2, Run 2, Run 2, Run 2, Run 2, Run 2]"

text \<open>
  Schedules in which two seal signals meet. \<open>second_signal\<close> (\<^verbatim>\<open>maxBatch = 2\<close>): two joiners
  register; the first appends, reaches the threshold, takes \<^verbatim>\<open>fc.mu\<close> and sends; the second
  appends and reaches the threshold too; the opener receives, unlocks, runs the job on the
  three ids and returns, the first joiner returns, and the second joiner takes \<^verbatim>\<open>fc.mu\<close> for
  its own send. \<open>now_against_timer\<close>: the timer expires, and before the opener has taken
  \<^verbatim>\<open>fc.mu\<close> a \<^verbatim>\<open>FetchNow\<close> takes it and finds the batch pending. \<open>size_against_timer\<close>
  (\<^verbatim>\<open>maxBatch = 2\<close>): the same with a joiner that reaches the threshold. \<open>size_after_timer\<close>
  (\<^verbatim>\<open>maxBatch = 2\<close>): a joiner registers, the timer expires and the opener closes the channel,
  then the joiner appends, reaches the threshold and sends.
\<close>

definition second_signal :: "event list" where
  "second_signal =
     [Go_Fetch 0 ''a'', Run 0, Run 0, Run 0, Run 0, Run 0, Run 0, Run 0, Run 0,
      Go_Fetch 1 ''b'', Run 1, Run 1, Run 1, Run 1, Run 1,
      Go_Fetch 2 ''c'', Run 2, Run 2, Run 2, Run 2, Run 2,
      Run 1, Run 1, Run 1, Run 1, Run 1, Run 1,
      Run 2, Run 2, Run 2,
      Run 0, Run 0, Run 0, Run 0, Run 0, Run 0, Run 0, Run 0, Run 0, Run 0,
      Run 1, Run 1, Run 1, Run 1, Run 1,
      Run 2]"

definition now_against_timer :: "event list" where
  "now_against_timer =
     [Go_Fetch 0 ''a'', Run 0, Run 0, Run 0, Run 0, Run 0, Run 0, Run 0, Run 0,
      Timeout 0, Go_FetchNow 1, Run 1, Run 1]"

definition size_against_timer :: "event list" where
  "size_against_timer =
     [Go_Fetch 0 ''a'', Run 0, Run 0, Run 0, Run 0, Run 0, Run 0, Run 0, Run 0,
      Go_Fetch 1 ''b'', Run 1, Run 1, Run 1, Run 1, Run 1, Run 1, Run 1, Run 1,
      Timeout 0, Run 1]"

definition size_after_timer :: "event list" where
  "size_after_timer =
     [Go_Fetch 0 ''a'', Run 0, Run 0, Run 0, Run 0, Run 0, Run 0, Run 0, Run 0,
      Go_Fetch 1 ''b'', Run 1, Run 1, Run 1, Run 1, Run 1,
      Timeout 0, Run 0, Run 0, Run 0, Run 0,
      Run 1, Run 1, Run 1, Run 1, Run 1]"

section \<open>States in which nothing can move\<close>

text \<open>
  \<open>frozen\<close>: the program has not faulted, \<^verbatim>\<open>fc.mu\<close> is held, and no goroutine can take a
  step, by itself or by the expiry of its timer.
\<close>

definition frozen :: "('v, 'e) world \<Rightarrow> bool" where
  "frozen s \<longleftrightarrow> crashed s = None \<and> fc_mu s \<and>
     (\<forall>t. exec (thr s t) t s = None \<and> timeout (thr s t) t s = None)"

section \<open>Proofs of the invariants\<close>

lemmas prim_defs = goto_def panic_def upd_batch_def fc_lock_def fc_unlock_def wg_wait_def
  chan_send_def ret_fetch_def new_batch_def doFetch_def timeout_def

lemmas run_defs = prim_defs step_def init_def NewFetcher_def cap_amd64_def

lemma was_called_simps [simp]:
  "was_called (s\<lparr>thr := x\<rparr>) = was_called s"
  "was_called (s\<lparr>heap := h\<rparr>) = was_called s"
  "was_called (s\<lparr>fc_mu := m\<rparr>) = was_called s"
  "was_called (s\<lparr>fc_m := r\<rparr>) = was_called s"
  "was_called (s\<lparr>fc_b := ob\<rparr>) = was_called s"
  "was_called (s\<lparr>nextb := n\<rparr>) = was_called s"
  "was_called (s\<lparr>crashed := c\<rparr>) = was_called s"
  "was_called (s\<lparr>cap_max := k\<rparr>) = was_called s"
  "was_called (s\<lparr>calls := cs\<rparr>) b = (b \<in> fst ` set cs)"
  by (simp_all add: was_called_def fun_eq_iff)

lemma was_called_fold [simp]: "(b \<in> fst ` set (calls s)) = was_called s b"
  by (simp add: was_called_def)

lemma step_cases [consumes 1, case_names Go_Fetch Go_FetchNow Run Timeout]:
  assumes "step ev s = Some s'"
  obtains
    (Go_Fetch) t i where "ev = Go_Fetch t i" "thr s t = Idle" "s' = goto t (F61 i) s"
  | (Go_FetchNow) t where "ev = Go_FetchNow t" "thr s t = Idle" "s' = goto t N138 s"
  | (Run) t where "ev = Run t" "exec (thr s t) t s = Some s'"
  | (Timeout) t i b where "ev = Timeout t" "thr s t = F112 i b" "b_csig (heap s b) = Chan_Recv"
      "s' = goto t (F114 i b) (upd_batch b (\<lambda>x. x\<lparr>b_csig := Chan_Idle\<rparr>) s)"
  using assms unfolding step_def timeout_def
  by (cases ev) (auto split: if_splits pc.splits)

lemmas exec_splits = if_splits option.splits chan.splits

lemma opener_bat: "opener_of p = Some b \<Longrightarrow> bat_of p = Some b"
  by (cases p) auto

lemma before_opener: "before_call p = Some b \<Longrightarrow> opener_of p = Some b"
  by (cases p) auto

lemma after_bat: "after_barrier p = Some b \<Longrightarrow> bat_of p = Some b"
  by (cases p) auto

lemma fresh_step:
  assumes "step ev s = Some s'" "inv_fresh s"
  shows "inv_fresh s'"
  using assms(1)
proof (cases rule: step_cases)
  case (Run t)
  have own: "\<And>b. bat_of (thr s t) = Some b \<Longrightarrow> b < nextb s"
    using assms(2) by (simp add: inv_fresh_def)
  show ?thesis
    using Run(2) assms(2) own unfolding inv_fresh_def
    by (cases "thr s t"; clarsimp simp: prim_defs less_Suc_eq split: exec_splits)
next
  case (Timeout t i b)
  have own: "\<And>b. bat_of (thr s t) = Some b \<Longrightarrow> b < nextb s"
    using assms(2) by (simp add: inv_fresh_def)
  show ?thesis using Timeout assms(2) own unfolding inv_fresh_def
    by (clarsimp simp: prim_defs)
next
  case (Go_Fetch t i)
  then show ?thesis using assms(2) unfolding inv_fresh_def
    by (clarsimp simp: prim_defs)
next
  case (Go_FetchNow t)
  then show ?thesis using assms(2) unfolding inv_fresh_def
    by (clarsimp simp: prim_defs)
qed

lemma wg_step:
  assumes "step ev s = Some s'" "inv_wg s"
  shows "inv_wg s'"
  using assms(1)
proof (cases rule: step_cases)
  case (Run t)
  show ?thesis
    using Run(2) assms(2) unfolding inv_wg_def
    by (cases "thr s t"; clarsimp simp: prim_defs split: exec_splits)
qed (use assms(2) in \<open>clarsimp simp: inv_wg_def prim_defs\<close>)+

lemma opener_step:
  assumes "step ev s = Some s'" "inv_fresh s" "inv_opener s"
  shows "inv_opener s'"
  using assms(1)
proof (cases rule: step_cases)
  case (Run t)
  have own: "\<And>t' b. opener_of (thr s t) = Some b \<Longrightarrow> opener_of (thr s t') = Some b \<Longrightarrow> t' = t"
    using assms(3) unfolding inv_opener_def by blast
  have fr: "\<forall>t'. opener_of (thr s t') \<noteq> Some (nextb s)"
    using assms(2) opener_bat unfolding inv_fresh_def by (metis less_irrefl)
  show ?thesis
    using Run(2) assms(3) own fr unfolding inv_opener_def
    by (cases "thr s t"; clarsimp simp: prim_defs split: exec_splits)
next
  case (Timeout t i b)
  have own: "\<And>t' b. opener_of (thr s t) = Some b \<Longrightarrow> opener_of (thr s t') = Some b \<Longrightarrow> t' = t"
    using assms(3) unfolding inv_opener_def by blast
  show ?thesis using Timeout assms(3) own unfolding inv_opener_def
    by (clarsimp simp: prim_defs)
qed (use assms(3) in \<open>clarsimp simp: inv_opener_def prim_defs\<close>)+


lemma uncalled_step:
  assumes "step ev s = Some s'" "inv_fresh s" "inv_opener s" "inv_uncalled s"
  shows "inv_uncalled s'"
  using assms(1)
proof (cases rule: step_cases)
  case (Run t)
  have own: "\<And>b. before_call (thr s t) = Some b \<Longrightarrow> \<not> was_called s b"
    using assms(4) unfolding inv_uncalled_def by blast
  have uniq: "\<And>t' b. opener_of (thr s t) = Some b \<Longrightarrow> t' \<noteq> t \<Longrightarrow> before_call (thr s t') \<noteq> Some b"
    using assms(3) before_opener unfolding inv_opener_def by blast
  have fr: "\<not> was_called s (nextb s)"
    using assms(2) unfolding inv_fresh_def by blast
  show ?thesis
    using Run(2) assms(4) own uniq fr unfolding inv_uncalled_def
    by (cases "thr s t"; clarsimp simp: prim_defs split: exec_splits)
next
  case (Timeout t i b)
  have own: "\<And>b. before_call (thr s t) = Some b \<Longrightarrow> \<not> was_called s b"
    using assms(4) unfolding inv_uncalled_def by blast
  show ?thesis using Timeout assms(4) own unfolding inv_uncalled_def
    by (clarsimp simp: prim_defs)
qed (use assms(4) in \<open>clarsimp simp: inv_uncalled_def prim_defs\<close>)+

lemma once_step:
  assumes "step ev s = Some s'" "inv_uncalled s" "inv_once s"
  shows "inv_once s'"
  using assms(1)
proof (cases rule: step_cases)
  case (Run t)
  have own: "\<And>b. before_call (thr s t) = Some b \<Longrightarrow> \<not> was_called s b"
    using assms(2) unfolding inv_uncalled_def by blast
  show ?thesis
    using Run(2) assms(3) own unfolding inv_once_def
    by (cases "thr s t"; clarsimp simp: prim_defs split: exec_splits)
qed (use assms(3) in \<open>clarsimp simp: inv_once_def prim_defs\<close>)+

lemma barrier_step:
  assumes "step ev s = Some s'" "inv_fresh s" "inv_wg s" "inv_barrier s"
  shows "inv_barrier s'"
  using assms(1)
proof (cases rule: step_cases)
  case (Run t)
  have own: "\<And>b. after_barrier (thr s t) = Some b \<Longrightarrow> b_wg (heap s b) = 0"
    "\<And>i b. thr s t = F124 i b \<Longrightarrow> was_called s b"
    using assms(4) unfolding inv_barrier_def by blast+
  have fr: "\<forall>t'. after_barrier (thr s t') \<noteq> Some (nextb s)"
    using assms(2) after_bat unfolding inv_fresh_def by (metis less_irrefl)
  have fr2: "\<forall>t' i. thr s t' \<noteq> F124 i (nextb s)"
    using assms(2) unfolding inv_fresh_def by (metis less_irrefl bat_of.simps(28))
  have wg: "\<And>b. b_wg (heap s b) \<noteq> 0 \<Longrightarrow> b_wg (heap s b) = 1"
    using assms(3) unfolding inv_wg_def by (metis One_nat_def le_Suc_eq le_zero_eq)
  show ?thesis
    using Run(2) assms(4) own fr fr2 wg unfolding inv_barrier_def
    by (cases "thr s t"; clarsimp simp: prim_defs less_Suc_eq split: exec_splits)
qed (use assms(4) in \<open>clarsimp simp: inv_barrier_def prim_defs\<close>)+


lemma in_calls_called: "(b, L) \<in> set (calls s) \<Longrightarrow> was_called s b"
  by (simp only: was_called_def) (rule image_eqI [where x = "(b, L)"], simp_all del: was_called_fold)

lemma result_step:
  assumes "step ev s = Some s'" "inv_fresh s" "inv_uncalled s" "inv_result s"
  shows "inv_result s'"
  using assms(1)
proof (cases rule: step_cases)
  case (Run t)
  have own: "\<forall>b L. before_call (thr s t) = Some b \<longrightarrow> (b, L) \<notin> set (calls s)"
    using assms(3) in_calls_called unfolding inv_uncalled_def by blast
  have fr: "\<forall>L. (nextb s, L) \<notin> set (calls s)"
    using assms(2) in_calls_called unfolding inv_fresh_def by (metis less_irrefl)
  show ?thesis
    using Run(2) assms(4) own fr unfolding inv_result_def
    by (cases "thr s t"; clarsimp simp: prim_defs split: exec_splits)
      (erule disjE, clarsimp, clarsimp)
qed (use assms(4) in \<open>clarsimp simp: inv_result_def prim_defs\<close>)+

lemma prefix_step:
  assumes "step ev s = Some s'" "inv_fresh s" "inv_prefix s"
  shows "inv_prefix s'"
  using assms(1)
proof (cases rule: step_cases)
  case (Run t)
  have fr: "\<forall>L. (nextb s, L) \<notin> set (calls s)"
    using assms(2) in_calls_called unfolding inv_fresh_def by (metis less_irrefl)
  show ?thesis
    using Run(2) assms(3) fr unfolding inv_prefix_def
    by (cases "thr s t"; clarsimp simp: prim_defs split: exec_splits)
      (erule disjE, clarsimp, clarsimp)
qed (use assms(3) in \<open>clarsimp simp: inv_prefix_def prim_defs\<close>)+

lemma ret_step:
  assumes "step ev s = Some s'" "inv_fresh s" "inv_uncalled s" "inv_barrier s" "inv_ret s"
  shows "inv_ret s'"
  using assms(1)
proof (cases rule: step_cases)
  case (Run t)
  have own: "\<And>b. before_call (thr s t) = Some b \<Longrightarrow> \<not> was_called s b"
    using assms(3) unfolding inv_uncalled_def by blast
  have fr: "\<not> was_called s (nextb s)"
    using assms(2) unfolding inv_fresh_def by blast
  have bar: "\<And>b. after_barrier (thr s t) = Some b \<Longrightarrow> was_called s b"
    using assms(2,4) after_bat unfolding inv_barrier_def inv_fresh_def by blast
  show ?thesis
    using Run(2) assms(5) own fr bar unfolding inv_ret_def
    by (cases "thr s t"; clarsimp simp: prim_defs split: exec_splits)
qed (use assms(5) in \<open>clarsimp simp: inv_ret_def prim_defs\<close>)+


lemma config_step:
  assumes "step ev s = Some s'" "inv_config fc s"
  shows "inv_config fc s'"
  using assms(1)
proof (cases rule: step_cases)
  case (Run t)
  show ?thesis
    using Run(2) assms(2) unfolding inv_config_def
    by (cases "thr s t"; clarsimp simp: prim_defs split: exec_splits)
qed (use assms(2) in \<open>clarsimp simp: inv_config_def prim_defs\<close>)+

lemma inv1_init: "inv1 (init lim (NewFetcher job w mb))"
  by (simp add: inv1_def init_def NewFetcher_def inv_fresh_def inv_wg_def inv_opener_def
      inv_uncalled_def inv_once_def inv_barrier_def inv_result_def inv_prefix_def inv_ret_def
      was_called_def zero_batch_def)

lemma inv1_step:
  assumes st: "step ev s = Some s'" and "inv1 s"
  shows "inv1 s'"
proof -
  from assms(2) have a: "inv_fresh s" "inv_wg s" "inv_opener s" "inv_uncalled s" "inv_once s"
    "inv_barrier s" "inv_result s" "inv_prefix s" "inv_ret s"
    by (simp_all add: inv1_def)
  show ?thesis
    unfolding inv1_def
    using fresh_step [OF st a(1)] wg_step [OF st a(2)] opener_step [OF st a(1,3)]
      uncalled_step [OF st a(1,3,4)] once_step [OF st a(4,5)] barrier_step [OF st a(1,2,6)]
      result_step [OF st a(1,4,7)] prefix_step [OF st a(1,8)] ret_step [OF st a(1,4,6,9)]
    by simp
qed

lemma reachable_inv1: "reachable lim (NewFetcher job w mb) s \<Longrightarrow> inv1 s"
proof (induction rule: reachable.induct)
  case reach_init
  show ?case by (rule inv1_init)
next
  case (reach_step s ev s')
  then show ?case using inv1_step by blast
qed

lemma reachable_config: "reachable lim fc s \<Longrightarrow> inv_config fc s"
proof (induction rule: reachable.induct)
  case reach_init
  show ?case by (simp add: inv_config_def init_def)
next
  case (reach_step s ev s')
  then show ?case using config_step by blast
qed

lemma run_reachable: "reachable lim fc s \<Longrightarrow> run evs s = Some s' \<Longrightarrow> reachable lim fc s'"
  by (induction evs arbitrary: s) (auto split: option.splits intro: reach_step)


section \<open>A frozen state stays frozen\<close>

text \<open>
  Whether a goroutine can step does not depend on where the others stand, and a goroutine
  that calls \<^verbatim>\<open>Fetch\<close> or \<^verbatim>\<open>FetchNow\<close> in a frozen state stops at the first statement,
  \<^verbatim>\<open>fc.mu.Lock()\<close>. So from a frozen state every goroutine inside a call stays where it is,
  whatever happens.
\<close>

lemma exec_thr_blocked: "(exec p t (s\<lparr>thr := x\<rparr>) = None) = (exec p t s = None)"
  by (cases p) (simp_all add: prim_defs split: chan.splits option.splits)

lemma timeout_thr_blocked: "(timeout p t (s\<lparr>thr := x\<rparr>) = None) = (timeout p t s = None)"
  by (cases p) (simp_all add: prim_defs)

lemma timeout_entry: "timeout (F61 i) t s = None" "timeout N138 t s = None"
  by (simp_all add: timeout_def)

lemma frozen_step:
  assumes "frozen s" "step ev s = Some s'"
  shows "frozen s' \<and> heap s' = heap s \<and> calls s' = calls s \<and> fc_b s' = fc_b s \<and>
    fc_m s' = fc_m s \<and> (\<forall>t. thr s t \<noteq> Idle \<longrightarrow> thr s' t = thr s t)"
proof (cases ev)
  case (Go_Fetch t i)
  then show ?thesis using assms
    by (auto simp: frozen_def step_def goto_def exec_thr_blocked timeout_thr_blocked fc_lock_def
        timeout_entry split: if_splits)
next
  case (Go_FetchNow t)
  then show ?thesis using assms
    by (auto simp: frozen_def step_def goto_def exec_thr_blocked timeout_thr_blocked fc_lock_def
        timeout_entry split: if_splits)
next
  case (Run t)
  then show ?thesis using assms by (simp add: frozen_def step_def)
next
  case (Timeout t)
  then show ?thesis using assms by (simp add: frozen_def step_def)
qed

lemma frozen_run:
  "frozen s \<Longrightarrow> run evs s = Some s' \<Longrightarrow>
     frozen s' \<and> heap s' = heap s \<and> calls s' = calls s \<and> fc_b s' = fc_b s \<and>
     fc_m s' = fc_m s \<and> (\<forall>t. thr s t \<noteq> Idle \<longrightarrow> thr s' t = thr s t)"
proof (induction evs arbitrary: s)
  case Nil
  then show ?case by simp
next
  case (Cons ev evs)
  from Cons.prems(2) obtain s1 where s1: "step ev s = Some s1" and r: "run evs s1 = Some s'"
    by (auto split: option.splits)
  from frozen_step [OF Cons.prems(1) s1] Cons.IH [OF _ r] show ?case by simp
qed


section \<open>What a returning Fetch hands back\<close>

lemma ret_sound:
  assumes "reachable lim (NewFetcher (Some job) w mb) s" "thr s t = Ret_Fetch i b v ok e"
  shows "\<exists>L. (b, L) \<in> set (calls s)"
    and "(b, L) \<in> set (calls s) \<Longrightarrow>
           v = fst (job L) i \<and> ok = (fst (job L) i \<noteq> None) \<and> e = snd (job L)"
proof -
  have i1: "inv1 s" using assms(1) by (rule reachable_inv1)
  have cf: "fc_f s = Some job" using reachable_config [OF assms(1)]
    by (simp add: inv_config_def NewFetcher_def)
  have r: "was_called s b \<and> v = b_vals (heap s b) i \<and> ok = (v \<noteq> None) \<and> e = b_err (heap s b)"
    using i1 assms(2) unfolding inv1_def inv_ret_def by blast
  then show "\<exists>L. (b, L) \<in> set (calls s)"
    unfolding was_called_def by (auto simp del: was_called_fold)
  assume "(b, L) \<in> set (calls s)"
  then have "b_vals (heap s b) = fst (job L) \<and> b_err (heap s b) = snd (job L)"
    using i1 cf unfolding inv1_def inv_result_def by blast
  with r show "v = fst (job L) i \<and> ok = (fst (job L) i \<noteq> None) \<and> e = snd (job L)"
    by simp
qed

text \<open>
  A goroutine that is past the barrier reads the results of an invocation that has taken
  place.
\<close>

lemma past_barrier:
  assumes "reachable lim (NewFetcher (Some job) w mb) s" "after_barrier (thr s t) = Some b"
  shows "\<exists>L. (b, L) \<in> set (calls s)"
    and "(b, L) \<in> set (calls s) \<Longrightarrow>
           b_vals (heap s b) = fst (job L) \<and> b_err (heap s b) = snd (job L)"
proof -
  have i1: "inv1 s" using assms(1) by (rule reachable_inv1)
  have cf: "fc_f s = Some job" using reachable_config [OF assms(1)]
    by (simp add: inv_config_def NewFetcher_def)
  have "b < nextb s"
    using i1 after_bat [OF assms(2)] unfolding inv1_def inv_fresh_def by blast
  moreover have "b_wg (heap s b) = 0"
    using i1 assms(2) unfolding inv1_def inv_barrier_def by blast
  ultimately have "was_called s b"
    using i1 unfolding inv1_def inv_barrier_def by blast
  then show "\<exists>L. (b, L) \<in> set (calls s)"
    unfolding was_called_def by (auto simp del: was_called_fold)
  assume "(b, L) \<in> set (calls s)"
  then show "b_vals (heap s b) = fst (job L) \<and> b_err (heap s b) = snd (job L)"
    using i1 cf unfolding inv1_def inv_result_def by blast
qed

lemma frozen_second_signal:
  "run second_signal (init cap_amd64 (NewFetcher (Some upper_job) 100 2)) = Some S \<Longrightarrow> frozen S"
  by (auto simp: second_signal_def run_defs frozen_def)

text \<open>
  Claim C2 (the code departs from the claim). With \<^verbatim>\<open>maxBatch = 2\<close> and the schedule
  \<open>second_signal\<close>, the job is invoked once, with \<^verbatim>\<open>["a","b","c"]\<close>, and returns a mapping that
  holds all three ids together with a nil error. \<^verbatim>\<open>Fetch("a")\<close> and \<^verbatim>\<open>Fetch("b")\<close> return their
  values, but the participant \<^verbatim>\<open>Fetch("c")\<close> has reached the threshold of line 80 as well: it
  holds \<^verbatim>\<open>fc.mu\<close> and stands at the send of line 82 on a channel whose only receiver has left
  its \<^verbatim>\<open>select\<close>. Whatever happens afterwards, it is still there: it never returns
  \<^verbatim>\<open>("c!", true, nil)\<close>.
\<close>

theorem participant_blocked_at_send:
  "\<exists>S. run second_signal (init cap_amd64 (NewFetcher (Some upper_job) 100 2)) = Some S \<and>
     calls S = [(0, [''a'', ''b'', ''c''])] \<and>
     snd (upper_job [''a'', ''b'', ''c'']) = None \<and>
     fst (upper_job [''a'', ''b'', ''c'']) ''c'' = Some ''c!'' \<and>
     thr S 0 = Ret_Fetch ''a'' 0 (Some ''a!'') True None \<and>
     thr S 1 = Ret_Fetch ''b'' 0 (Some ''b!'') True None \<and>
     thr S 2 = F82 ''c'' 0 \<and> fc_mu S \<and> b_csig (heap S 0) = Chan_Idle \<and>
     step (Run 2) S = None \<and>
     (\<forall>evs s'. run evs S = Some s' \<longrightarrow> thr s' 2 = F82 ''c'' 0)"
proof -
  let ?I = "init cap_amd64 (NewFetcher (Some upper_job) 100 2)"
  obtain S where r: "run second_signal ?I = Some S"
    by (simp add: second_signal_def run_defs)
  have f: "frozen S" using r by (rule frozen_second_signal)
  have a: "calls S = [(0, [''a'', ''b'', ''c''])] \<and>
     thr S 0 = Ret_Fetch ''a'' 0 (Some ''a!'') True None \<and>
     thr S 1 = Ret_Fetch ''b'' 0 (Some ''b!'') True None \<and>
     thr S 2 = F82 ''c'' 0 \<and> fc_mu S \<and> b_csig (heap S 0) = Chan_Idle \<and>
     step (Run 2) S = None"
    using r by (auto simp: second_signal_def run_defs upper_job_def)
  have j: "snd (upper_job [''a'', ''b'', ''c'']) = None \<and>
     fst (upper_job [''a'', ''b'', ''c'']) ''c'' = Some ''c!''"
    by (simp add: upper_job_def)
  have p: "\<forall>evs s'. run evs S = Some s' \<longrightarrow> thr s' 2 = F82 ''c'' 0"
    using frozen_run [OF f] a by simp
  from r a j p show ?thesis by blast
qed

theorem participant_blocked_at_send_witness:
  "\<exists>S s'. run second_signal (init cap_amd64 (NewFetcher (Some upper_job) 100 2)) = Some S \<and>
     run [Go_FetchNow 3, Run 3, Go_Fetch 4 ''c'', Run 4] S = None \<and>
     run [Go_FetchNow 3, Go_Fetch 4 ''c''] S = Some s' \<and> thr s' 2 = F82 ''c'' 0"
proof -
  from participant_blocked_at_send obtain S where
    r: "run second_signal (init cap_amd64 (NewFetcher (Some upper_job) 100 2)) = Some S"
    and p: "\<forall>evs s'. run evs S = Some s' \<longrightarrow> thr s' 2 = F82 ''c'' 0"
    by blast
  have n: "run [Go_FetchNow 3, Run 3, Go_Fetch 4 ''c'', Run 4] S = None"
    using r by (auto simp: second_signal_def run_defs)
  obtain s' where e: "run [Go_FetchNow 3, Go_Fetch 4 ''c''] S = Some s'"
    using r by (auto simp: second_signal_def run_defs)
  from p e have "thr s' 2 = F82 ''c'' 0" by blast
  with r n e show ?thesis by blast
qed

text \<open>
  Claim C3, as the claim states it, fails: the three return sites read \<^verbatim>\<open>b.vals[id]\<close>
  whatever \<^verbatim>\<open>b.err\<close> is. With a job that returns \<^verbatim>\<open>{"a":"ABC"}\<close> together with an error, a
  single \<^verbatim>\<open>Fetch("a")\<close> whose batch is sealed by the timer returns the value, found = true
  and the error.
\<close>

theorem Fetch_error_keeps_mapping_counterexample:
  "err_job [''a''] = ([''a'' \<mapsto> ''ABC''], Some ''error'') \<and>
   calls (the (run one_alone (init cap_amd64 (NewFetcher (Some err_job) 100 1)))) = [(0, [''a''])] \<and>
   thr (the (run one_alone (init cap_amd64 (NewFetcher (Some err_job) 100 1)))) 0
     = Ret_Fetch ''a'' 0 (Some ''ABC'') True (Some ''error'')"
  by (simp add: one_alone_def run_defs err_job_def)

text \<open>
  Claim C3, amended. When the job returns a non-nil error, every participant whose
  \<^verbatim>\<open>Fetch\<close> returns receives exactly that error, on each of the three paths; the value and
  the found flag are still looked up in the mapping the job returned with the error, so
  they are \<open>nil\<close> and false exactly when that mapping lacks the id. In every state the
  program can reach: a goroutine that has returned from \<^verbatim>\<open>Fetch(i)\<close> on batch \<open>b\<close> belongs to
  a batch the job was invoked for and holds that invocation's error and the mapping's
  entry for \<open>i\<close>; a goroutine that stands at one of the return statements (lines 68, 94,
  131) returns just that at its next step; and a goroutine that waits at the barrier
  (lines 67, 87) passes it at its next step once the wait group is at zero. Whether a
  participant gets as far as the barrier is not part of the statement.
\<close>

theorem Fetch_error_relayed:
  assumes "reachable lim (NewFetcher (Some job) maxWait maxBatch) s"
  shows "(thr s t = Ret_Fetch i b v ok e \<longrightarrow>
      (\<exists>L. (b, L) \<in> set (calls s)) \<and>
      (\<forall>L V x. (b, L) \<in> set (calls s) \<longrightarrow> job L = (V, Some x) \<longrightarrow>
         e = Some x \<and> v = V i \<and> ok = (i \<in> dom V))) \<and>
    ((thr s t = F68 i b \<or> thr s t = F94 i b \<or> thr s t = F131 i b) \<and> crashed s = None \<longrightarrow>
      (\<exists>L. (b, L) \<in> set (calls s)) \<and>
      (\<forall>L V x. (b, L) \<in> set (calls s) \<longrightarrow> job L = (V, Some x) \<longrightarrow>
         step (Run t) s = Some (goto t (Ret_Fetch i b (V i) (i \<in> dom V) (Some x)) s))) \<and>
    (crashed s = None \<and> b_wg (heap s b) = 0 \<longrightarrow>
      (thr s t = F67 i b \<longrightarrow> step (Run t) s = Some (goto t (F68 i b) s)) \<and>
      (thr s t = F87 i b \<longrightarrow> step (Run t) s = Some (goto t (F90 i b) s)))"
proof (intro conjI impI)
  assume h: "thr s t = Ret_Fetch i b v ok e"
  show "\<exists>L. (b, L) \<in> set (calls s)" using ret_sound(1) [OF assms h] .
  show "\<forall>L V x. (b, L) \<in> set (calls s) \<longrightarrow> job L = (V, Some x) \<longrightarrow>
         e = Some x \<and> v = V i \<and> ok = (i \<in> dom V)"
    using ret_sound(2) [OF assms h] by (auto simp: dom_def)
next
  assume h: "(thr s t = F68 i b \<or> thr s t = F94 i b \<or> thr s t = F131 i b) \<and> crashed s = None"
  then have ab: "after_barrier (thr s t) = Some b" by auto
  show "\<exists>L. (b, L) \<in> set (calls s)" using past_barrier(1) [OF assms ab] .
  show "\<forall>L V x. (b, L) \<in> set (calls s) \<longrightarrow> job L = (V, Some x) \<longrightarrow>
         step (Run t) s = Some (goto t (Ret_Fetch i b (V i) (i \<in> dom V) (Some x)) s)"
  proof (intro allI impI)
    fix L V x
    assume "(b, L) \<in> set (calls s)" and j: "job L = (V, Some x)"
    then have "b_vals (heap s b) = V \<and> b_err (heap s b) = Some x"
      using past_barrier(2) [OF assms ab] by simp
    then have "ret_fetch i b s = Ret_Fetch i b (V i) (i \<in> dom V) (Some x)"
      by (auto simp: ret_fetch_def dom_def)
    with h show "step (Run t) s = Some (goto t (Ret_Fetch i b (V i) (i \<in> dom V) (Some x)) s)"
      by (auto simp: step_def)
  qed
next
  assume "crashed s = None \<and> b_wg (heap s b) = 0" "thr s t = F67 i b"
  then show "step (Run t) s = Some (goto t (F68 i b) s)"
    by (simp add: step_def wg_wait_def)
next
  assume "crashed s = None \<and> b_wg (heap s b) = 0" "thr s t = F87 i b"
  then show "step (Run t) s = Some (goto t (F90 i b) s)"
    by (simp add: step_def wg_wait_def)
qed

theorem Fetch_error_relayed_witness:
  "\<exists>S T. run three_paths (init cap_amd64 (NewFetcher (Some err_job) 100 1000)) = Some S \<and>
     run three_paths_68 (init cap_amd64 (NewFetcher (Some err_job) 100 1000)) = Some T \<and>
     reachable cap_amd64 (NewFetcher (Some err_job) 100 1000) S \<and>
     reachable cap_amd64 (NewFetcher (Some err_job) 100 1000) T \<and>
     calls S = [(0, [''a'', ''b''])] \<and> calls T = [(0, [''a'', ''b''])] \<and>
     err_job [''a'', ''b''] = ([''a'' \<mapsto> ''ABC''], Some ''error'') \<and>
     thr S 0 = Ret_Fetch ''a'' 0 (Some ''ABC'') True (Some ''error'') \<and>
     thr S 1 = Ret_Fetch ''b'' 0 None False (Some ''error'') \<and>
     thr S 2 = Ret_Fetch ''a'' 0 (Some ''ABC'') True (Some ''error'') \<and>
     thr T 2 = F68 ''a'' 0 \<and> crashed T = None \<and>
     step (Run 2) T = Some (goto 2 (Ret_Fetch ''a'' 0 ([''a'' \<mapsto> ''ABC''] ''a'')
        (''a'' \<in> dom [''a'' \<mapsto> ''ABC'']) (Some ''error'')) T) \<and>
     (\<exists>L. (0, L) \<in> set (calls S)) \<and>
     Some ''error'' = Some ''error'' \<and> None = [''a'' \<mapsto> ''ABC''] ''b'' \<and>
     False = (''b'' \<in> dom [''a'' \<mapsto> ''ABC''])"
proof -
  let ?fc = "NewFetcher (Some err_job) 100 1000"
  obtain S where rs: "run three_paths (init cap_amd64 ?fc) = Some S"
    by (simp add: three_paths_def three_paths_68_def run_defs)
  obtain T where rt: "run three_paths_68 (init cap_amd64 ?fc) = Some T"
    by (simp add: three_paths_68_def run_defs)
  have reS: "reachable cap_amd64 ?fc S" using run_reachable [OF reach_init rs] .
  have reT: "reachable cap_amd64 ?fc T" using run_reachable [OF reach_init rt] .
  have s: "calls S = [(0, [''a'', ''b''])] \<and>
     thr S 0 = Ret_Fetch ''a'' 0 (Some ''ABC'') True (Some ''error'') \<and>
     thr S 1 = Ret_Fetch ''b'' 0 None False (Some ''error'') \<and>
     thr S 2 = Ret_Fetch ''a'' 0 (Some ''ABC'') True (Some ''error'')"
    using rs by (auto simp: three_paths_def three_paths_68_def run_defs err_job_def)
  have t: "calls T = [(0, [''a'', ''b''])] \<and> thr T 2 = F68 ''a'' 0 \<and> crashed T = None"
    using rt by (auto simp: three_paths_68_def run_defs)
  have j: "err_job [''a'', ''b''] = ([''a'' \<mapsto> ''ABC''], Some ''error'')"
    by (simp add: err_job_def)
  have "(0, [''a'', ''b'']) \<in> set (calls T)" using t by simp
  with Fetch_error_relayed [OF reT, of 2 "''a''" 0] t j
  have st: "step (Run 2) T = Some (goto 2 (Ret_Fetch ''a'' 0 ([''a'' \<mapsto> ''ABC''] ''a'')
        (''a'' \<in> dom [''a'' \<mapsto> ''ABC'']) (Some ''error'')) T)"
    by blast
  have "(0, [''a'', ''b'']) \<in> set (calls S)" using s by simp
  with Fetch_error_relayed [OF reS, where t = 1 and i = "''b''" and b = 0 and v = None
      and ok = False and e = "Some ''error''"] s j
  have jn: "(\<exists>L. (0, L) \<in> set (calls S)) \<and>
     Some ''error'' = Some ''error'' \<and> None = [''a'' \<mapsto> ''ABC''] ''b'' \<and>
     False = (''b'' \<in> dom [''a'' \<mapsto> ''ABC''])"
    by blast
  from rs rt reS reT s t j st jn show ?thesis by blast
qed
section \<open>Sealing by size\<close>

text \<open>
  Claim C4 (the code departs from the claim). With \<^verbatim>\<open>maxBatch = 1\<close> the opener's own
  identifier already fills the batch, but lines 99 to 108 never compare \<^verbatim>\<open>len(b.ids)\<close> with
  \<^verbatim>\<open>fc.maxb\<close>, as line 80 does for a joiner. After the opener has reached its \<^verbatim>\<open>select\<close> the
  batch is still pending, no signal has been sent, the goroutine cannot move, and the only
  event that lets it go on is the expiry of the timer.
\<close>

theorem opener_alone_waits_for_timer:
  "map_option (\<lambda>s. (thr s 0, fc_b s, b_ids (heap s 0), b_csig (heap s 0),
       fc_maxb s \<le> int (length (b_ids (heap s 0))), step (Run 0) s,
       map_option (\<lambda>s'. thr s' 0) (step (Timeout 0) s)))
     (run [Go_Fetch 0 ''a'', Run 0, Run 0, Run 0, Run 0, Run 0, Run 0, Run 0, Run 0]
        (init cap_amd64 (NewFetcher (Some upper_job) 100 1)))
   = Some (F112 ''a'' 0, Some 0, [''a''], Chan_Recv, True, None, Some (F114 ''a'' 0))"
  by (simp add: run_defs)

section \<open>What the job receives\<close>

text \<open>
  Claim C1 (the code departs from the claim). A joiner registers its id under \<^verbatim>\<open>fc.mu\<close>
  (line 76) and appends it under \<^verbatim>\<open>b.mu\<close> (line 79), and the opener reads \<^verbatim>\<open>b.ids\<close> for the
  job (line 154) without taking \<^verbatim>\<open>b.mu\<close>: between the two lines the batch can be closed and
  executed. Three calls \<^verbatim>\<open>Fetch("a")\<close>, \<^verbatim>\<open>Fetch("b")\<close>, \<^verbatim>\<open>Fetch("c")\<close> are made before the timer
  expires, with \<^verbatim>\<open>maxBatch = 1000\<close>; when it expires the third has registered \<^verbatim>\<open>"c"\<close> with the
  batch and not yet appended it. The job is invoked once, with \<^verbatim>\<open>["a","b"]\<close>, the batch
  accumulates \<^verbatim>\<open>["a","b","c"]\<close>, no second batch is made, and \<^verbatim>\<open>Fetch("c")\<close> returns
  \<^verbatim>\<open>(nil, false, nil)\<close> from a job that answers every id it is given.
\<close>

theorem job_misses_registered_id:
  "map_option (\<lambda>s. (thr s 0, thr s 1, thr s 2, fc_m s ''c'', fc_b s, calls s))
     (run three_submitted (init cap_amd64 (NewFetcher (Some upper_job) 100 1000)))
   = Some (F112 ''a'' 0, F87 ''b'' 0, F78 ''c'' 0, Some 0, Some 0, []) \<and>
   map_option (\<lambda>s. (calls s, b_ids (heap s 0), nextb s, thr s 0, thr s 1, thr s 2))
     (run (three_submitted @ three_finish) (init cap_amd64 (NewFetcher (Some upper_job) 100 1000)))
   = Some ([(0, [''a'', ''b''])], [''a'', ''b'', ''c''], 1,
       Ret_Fetch ''a'' 0 (Some ''a!'') True None, Ret_Fetch ''b'' 0 (Some ''b!'') True None,
       Ret_Fetch ''c'' 0 None False None) \<and>
   fst (upper_job [''a'', ''b'', ''c'']) ''c'' = Some ''c!''"
  by (simp add: three_submitted_def three_finish_def run_defs upper_job_def)

text \<open>
  Claim C6 (the code departs from the claim). Nothing in \<^verbatim>\<open>Fetch\<close> records that a batch is
  sealed, and line 79 appends without looking. After \<open>late_append\<close> the batch is closed, is
  no longer the pending one and the job has run on \<^verbatim>\<open>["a"]\<close>; the joiner, which registered
  before the timer expired, then takes \<^verbatim>\<open>b.mu\<close> and appends \<^verbatim>\<open>"b"\<close> to the sealed batch. It
  starts no new batch: it waits on the old one and returns \<^verbatim>\<open>(nil, false, nil)\<close>, although
  the job was never asked for \<^verbatim>\<open>"b"\<close>.
\<close>

theorem append_after_seal_dropped:
  "map_option (\<lambda>s. (fc_b s, b_csig (heap s 0), calls s, b_ids (heap s 0), thr s 1,
       map_option (\<lambda>s'. (thr s' 1, b_ids (heap s' 0))) (run [Run 1, Run 1] s)))
     (run late_append (init cap_amd64 (NewFetcher (Some upper_job) 100 1000)))
   = Some (None, Chan_Closed, [(0, [''a''])], [''a''], F78 ''b'' 0,
       Some (F80 ''b'' 0, [''a'', ''b''])) \<and>
   map_option (\<lambda>s. (thr s 1, calls s, nextb s, b_ids (heap s 0), fc_b s))
     (run (late_append @ late_append_rest) (init cap_amd64 (NewFetcher (Some upper_job) 100 1000)))
   = Some (Ret_Fetch ''b'' 0 None False None, [(0, [''a''])], 1, [''a'', ''b''], None)"
  by (simp add: late_append_def late_append_rest_def run_defs upper_job_def)

section \<open>The manual trigger and competing seal signals\<close>

lemma frozen_now_against_timer:
  "run now_against_timer (init cap_amd64 (NewFetcher (Some upper_job) 100 1000)) = Some S \<Longrightarrow>
     frozen S"
  by (auto simp: now_against_timer_def run_defs frozen_def)

lemma frozen_size_against_timer:
  "run size_against_timer (init cap_amd64 (NewFetcher (Some upper_job) 100 2)) = Some S \<Longrightarrow>
     frozen S"
  by (auto simp: size_against_timer_def run_defs frozen_def)

text \<open>
  Claim C5 (the code departs from the claim). \<^verbatim>\<open>FetchNow\<close> sends on the channel while it
  holds \<^verbatim>\<open>fc.mu\<close> (line 147), and the opener that has taken \<^verbatim>\<open>case <-t.C\<close> needs \<^verbatim>\<open>fc.mu\<close> before
  it closes the channel (line 114). In \<open>now_against_timer\<close> the timer expires, and \<^verbatim>\<open>FetchNow\<close>
  takes the lock first and finds the batch pending: it stands at the send, no receiver
  will ever come, and the opener stands at the lock. From then on, whatever happens,
  \<^verbatim>\<open>FetchNow\<close> has not returned, the batch is still the pending one and the job has not been
  invoked.
\<close>

theorem FetchNow_blocked_by_timer:
  "\<exists>S. run now_against_timer (init cap_amd64 (NewFetcher (Some upper_job) 100 1000)) = Some S \<and>
     thr S 0 = F114 ''a'' 0 \<and> thr S 1 = N147 0 \<and> fc_b S = Some 0 \<and> fc_mu S \<and>
     b_csig (heap S 0) = Chan_Idle \<and> calls S = [] \<and>
     step (Run 0) S = None \<and> step (Run 1) S = None \<and> step (Timeout 0) S = None \<and>
     (\<forall>evs s'. run evs S = Some s' \<longrightarrow>
        thr s' 1 = N147 0 \<and> thr s' 0 = F114 ''a'' 0 \<and> fc_b s' = Some 0 \<and> calls s' = [])"
proof -
  obtain S where r: "run now_against_timer (init cap_amd64 (NewFetcher (Some upper_job) 100 1000))
      = Some S"
    by (simp add: now_against_timer_def run_defs)
  have f: "frozen S" using r by (rule frozen_now_against_timer)
  have a: "thr S 0 = F114 ''a'' 0 \<and> thr S 1 = N147 0 \<and> fc_b S = Some 0 \<and> fc_mu S \<and>
     b_csig (heap S 0) = Chan_Idle \<and> calls S = [] \<and>
     step (Run 0) S = None \<and> step (Run 1) S = None \<and> step (Timeout 0) S = None"
    using r by (auto simp: now_against_timer_def run_defs)
  have p: "\<forall>evs s'. run evs S = Some s' \<longrightarrow>
        thr s' 1 = N147 0 \<and> thr s' 0 = F114 ''a'' 0 \<and> fc_b s' = Some 0 \<and> calls s' = []"
    using frozen_run [OF f] a by simp
  from r a p show ?thesis by blast
qed

theorem FetchNow_blocked_by_timer_witness:
  "\<exists>S s'. run now_against_timer (init cap_amd64 (NewFetcher (Some upper_job) 100 1000)) = Some S \<and>
     run [Go_FetchNow 2, Go_Fetch 3 ''b''] S = Some s' \<and>
     thr s' 1 = N147 0 \<and> thr s' 0 = F114 ''a'' 0 \<and> fc_b s' = Some 0 \<and> calls s' = [] \<and>
     step (Run 2) s' = None \<and> step (Run 3) s' = None"
proof -
  from FetchNow_blocked_by_timer obtain S where
    r: "run now_against_timer (init cap_amd64 (NewFetcher (Some upper_job) 100 1000)) = Some S"
    and p: "\<forall>evs s'. run evs S = Some s' \<longrightarrow>
        thr s' 1 = N147 0 \<and> thr s' 0 = F114 ''a'' 0 \<and> fc_b s' = Some 0 \<and> calls s' = []"
    by blast
  obtain s' where e: "run [Go_FetchNow 2, Go_Fetch 3 ''b''] S = Some s' \<and>
      step (Run 2) s' = None \<and> step (Run 3) s' = None"
    using r by (auto simp: now_against_timer_def run_defs)
  from p e have "thr s' 1 = N147 0 \<and> thr s' 0 = F114 ''a'' 0 \<and> fc_b s' = Some 0 \<and> calls s' = []"
    by blast
  with r e show ?thesis by blast
qed

text \<open>
  Claim C9 (the code departs from the claim). The channel is fired without any record of
  an earlier firing. With \<^verbatim>\<open>maxBatch = 2\<close>: in \<open>size_against_timer\<close> the timer expires while
  a joiner that has reached the threshold takes \<^verbatim>\<open>fc.mu\<close>; the joiner then stands at its send
  (line 82) and the opener at its lock (line 114), and whatever happens afterwards both are
  still there and the job has not been invoked. In \<open>size_after_timer\<close> the opener has
  closed the channel when the joiner sends: the program panics with a send on a closed
  channel.
\<close>

theorem seal_signals_collide:
  "(\<exists>S. run size_against_timer (init cap_amd64 (NewFetcher (Some upper_job) 100 2)) = Some S \<and>
      thr S 0 = F114 ''a'' 0 \<and> thr S 1 = F82 ''b'' 0 \<and> fc_mu S \<and>
      b_csig (heap S 0) = Chan_Idle \<and> crashed S = None \<and>
      step (Run 0) S = None \<and> step (Run 1) S = None \<and> step (Timeout 0) S = None \<and>
      (\<forall>evs s'. run evs S = Some s' \<longrightarrow>
         thr s' 0 = F114 ''a'' 0 \<and> thr s' 1 = F82 ''b'' 0 \<and> calls s' = [])) \<and>
   map_option (\<lambda>s. (b_csig (heap s 0), thr s 1, step (Run 1) s = None))
     (run (butlast size_after_timer) (init cap_amd64 (NewFetcher (Some upper_job) 100 2)))
   = Some (Chan_Closed, F82 ''b'' 0, False) \<and>
   map_option (\<lambda>s. (crashed s, thr s 1))
     (run size_after_timer (init cap_amd64 (NewFetcher (Some upper_job) 100 2)))
   = Some (Some Send_On_Closed, Panicked)"
proof -
  obtain S where r: "run size_against_timer (init cap_amd64 (NewFetcher (Some upper_job) 100 2))
      = Some S"
    by (simp add: size_against_timer_def run_defs)
  have f: "frozen S" using r by (rule frozen_size_against_timer)
  have a: "thr S 0 = F114 ''a'' 0 \<and> thr S 1 = F82 ''b'' 0 \<and> fc_mu S \<and>
      b_csig (heap S 0) = Chan_Idle \<and> crashed S = None \<and> calls S = [] \<and>
      step (Run 0) S = None \<and> step (Run 1) S = None \<and> step (Timeout 0) S = None"
    using r by (auto simp: size_against_timer_def run_defs)
  have p: "\<forall>evs s'. run evs S = Some s' \<longrightarrow>
         thr s' 0 = F114 ''a'' 0 \<and> thr s' 1 = F82 ''b'' 0 \<and> calls s' = []"
    using frozen_run [OF f] a by simp
  have q: "map_option (\<lambda>s. (b_csig (heap s 0), thr s 1, step (Run 1) s = None))
     (run (butlast size_after_timer) (init cap_amd64 (NewFetcher (Some upper_job) 100 2)))
   = Some (Chan_Closed, F82 ''b'' 0, False)"
    by (simp add: size_after_timer_def run_defs)
  have c: "map_option (\<lambda>s. (crashed s, thr s 1))
     (run size_after_timer (init cap_amd64 (NewFetcher (Some upper_job) 100 2)))
   = Some (Some Send_On_Closed, Panicked)"
    by (simp add: size_after_timer_def run_defs)
  from r a p q c show ?thesis by blast
qed

theorem seal_signals_collide_witness:
  "\<exists>S s'. run size_against_timer (init cap_amd64 (NewFetcher (Some upper_job) 100 2)) = Some S \<and>
     run [Go_FetchNow 2, Go_Fetch 3 ''c''] S = Some s' \<and>
     thr s' 0 = F114 ''a'' 0 \<and> thr s' 1 = F82 ''b'' 0 \<and> calls s' = [] \<and>
     step (Run 2) s' = None \<and> step (Run 3) s' = None"
proof -
  from seal_signals_collide obtain S where
    r: "run size_against_timer (init cap_amd64 (NewFetcher (Some upper_job) 100 2)) = Some S"
    and p: "\<forall>evs s'. run evs S = Some s' \<longrightarrow>
         thr s' 0 = F114 ''a'' 0 \<and> thr s' 1 = F82 ''b'' 0 \<and> calls s' = []"
    by blast
  obtain s' where e: "run [Go_FetchNow 2, Go_Fetch 3 ''c''] S = Some s' \<and>
      step (Run 2) s' = None \<and> step (Run 3) s' = None"
    using r by (auto simp: size_against_timer_def run_defs)
  from p e have "thr s' 0 = F114 ''a'' 0 \<and> thr s' 1 = F82 ''b'' 0 \<and> calls s' = []"
    by blast
  with r e show ?thesis by blast
qed
section \<open>Cleaning the registry\<close>

text \<open>
  Claim C7, as the claim states it, fails: the joining path has a cleanup of its own (lines
  89 to 92), and the opener deletes one key, its own (line 128). After \<open>opener_done\<close> the
  opener of the batch of \<^verbatim>\<open>"a"\<close> and \<^verbatim>\<open>"b"\<close> has returned and the registry still holds \<^verbatim>\<open>"b"\<close>;
  the entry goes when the joiner executes line 91.
\<close>

theorem joiner_purges_own_entry_counterexample:
  "map_option (\<lambda>s. (thr s 0, thr s 1, fc_m s ''a'', fc_m s ''b''))
     (run opener_done (init cap_amd64 (NewFetcher (Some upper_job) 100 1000)))
   = Some (Ret_Fetch ''a'' 0 (Some ''a!'') True None, F87 ''b'' 0, None, Some 0) \<and>
   map_option (\<lambda>s. (thr s 1, fc_m s ''b''))
     (run (opener_done @ [Run 1, Run 1]) (init cap_amd64 (NewFetcher (Some upper_job) 100 1000)))
   = Some (F91 ''b'' 0, Some 0) \<and>
   map_option (\<lambda>s. (thr s 1, fc_m s ''b''))
     (run (opener_done @ [Run 1, Run 1, Run 1])
        (init cap_amd64 (NewFetcher (Some upper_job) 100 1000)))
   = Some (F92 ''b'' 0, None)"
  by (simp add: opener_done_def run_defs upper_job_def)

text \<open>
  Claim C7, amended. A registry entry is removed only at line 91, by a joiner, or at line
  128, by the opener; the goroutine removes the entry of its own identifier and no other,
  and only after the completion barrier of its batch has been released. In every state the
  program can reach, a step after which an identifier \<open>i\<close> is no longer registered is the
  step of a goroutine whose own id is \<open>i\<close> and that stands at line 91 or at line 128; the job
  has been invoked for its batch and the batch's wait group is at zero; the step changes
  the registry at \<open>i\<close> only. And a goroutine that stands at one of the two lines takes that
  step whenever it is scheduled. So the opener purges its own identifier only, a joiner
  that gets to line 91 purges its own, and a \<^verbatim>\<open>Fetch\<close> that found its id registered removes
  nothing.
\<close>

theorem registry_entry_purged_by_registrant:
  assumes "reachable lim (NewFetcher job maxWait maxBatch) s"
  shows "(step ev s = Some s' \<and> fc_m s i \<noteq> None \<and> fc_m s' i = None \<longrightarrow>
      (\<exists>t b. ev = Run t \<and> (thr s t = F91 i b \<or> thr s t = F128 i b) \<and>
         b_wg (heap s b) = 0 \<and> was_called s b \<and> fc_m s' = (fc_m s)(i := None))) \<and>
    ((thr s t = F91 i b \<or> thr s t = F128 i b) \<and> crashed s = None \<longrightarrow>
      (\<exists>s'. step (Run t) s = Some s' \<and> fc_m s' = (fc_m s)(i := None)))"
proof (intro conjI impI)
  assume h: "step ev s = Some s' \<and> fc_m s i \<noteq> None \<and> fc_m s' i = None"
  have i1: "inv1 s" using assms by (rule reachable_inv1)
  from h have st: "step ev s = Some s'" by simp
  from st show "\<exists>t b. ev = Run t \<and> (thr s t = F91 i b \<or> thr s t = F128 i b) \<and>
         b_wg (heap s b) = 0 \<and> was_called s b \<and> fc_m s' = (fc_m s)(i := None)"
  proof (cases rule: step_cases)
    case (Run t)
    have bar: "\<forall>b. after_barrier (thr s t) = Some b \<longrightarrow>
        b_wg (heap s b) = 0 \<and> was_called s b"
      using i1 after_bat unfolding inv1_def inv_barrier_def inv_fresh_def by blast
    have "\<exists>b. (thr s t = F91 i b \<or> thr s t = F128 i b) \<and>
         b_wg (heap s b) = 0 \<and> was_called s b \<and> fc_m s' = (fc_m s)(i := None)"
      using Run(2) h bar
      by (cases "thr s t"; clarsimp simp: prim_defs split: exec_splits)
    with Run(1) show ?thesis by blast
  next
    case (Go_Fetch t j)
    with h show ?thesis by (auto simp: goto_def)
  next
    case (Go_FetchNow t)
    with h show ?thesis by (auto simp: goto_def)
  next
    case (Timeout t j b)
    with h show ?thesis by (auto simp: prim_defs)
  qed
next
  assume "(thr s t = F91 i b \<or> thr s t = F128 i b) \<and> crashed s = None"
  then show "\<exists>s'. step (Run t) s = Some s' \<and> fc_m s' = (fc_m s)(i := None)"
    by (auto simp: step_def goto_def)
qed

theorem registry_entry_purged_by_registrant_witness:
  "\<exists>S S'. run (opener_done @ [Run 1, Run 1]) (init cap_amd64 (NewFetcher (Some upper_job) 100 1000))
        = Some S \<and>
     reachable cap_amd64 (NewFetcher (Some upper_job) 100 1000) S \<and>
     step (Run 1) S = Some S' \<and> fc_m S ''b'' = Some 0 \<and> fc_m S' ''b'' = None \<and>
     thr S 0 = Ret_Fetch ''a'' 0 (Some ''a!'') True None \<and> thr S 1 = F91 ''b'' 0 \<and>
     (\<exists>t b. Run 1 = Run t \<and> (thr S t = F91 ''b'' b \<or> thr S t = F128 ''b'' b) \<and>
        b_wg (heap S b) = 0 \<and> was_called S b \<and> fc_m S' = (fc_m S)(''b'' := None))"
proof -
  let ?fc = "NewFetcher (Some upper_job) 100 1000"
  obtain S where r: "run (opener_done @ [Run 1, Run 1]) (init cap_amd64 ?fc) = Some S"
    by (simp add: opener_done_def run_defs)
  have re: "reachable cap_amd64 ?fc S" using run_reachable [OF reach_init r] .
  have a: "fc_m S ''b'' = Some 0 \<and> thr S 0 = Ret_Fetch ''a'' 0 (Some ''a!'') True None \<and>
     thr S 1 = F91 ''b'' 0 \<and> crashed S = None"
    using r by (auto simp: opener_done_def run_defs upper_job_def)
  obtain S' where st: "step (Run 1) S = Some S'" and m: "fc_m S' = (fc_m S)(''b'' := None)"
    using registry_entry_purged_by_registrant [OF re, where t = 1 and i = "''b''" and b = 0] a
    by blast
  from m have n: "fc_m S' ''b'' = None" by simp
  from registry_entry_purged_by_registrant [OF re, where ev = "Run 1" and s' = S' and i = "''b''"]
    st a n
  have "\<exists>t b. Run 1 = Run t \<and> (thr S t = F91 ''b'' b \<or> thr S t = F128 ''b'' b) \<and>
        b_wg (heap S b) = 0 \<and> was_called S b \<and> fc_m S' = (fc_m S)(''b'' := None)"
    by simp
  with r re st a n show ?thesis by blast
qed

section \<open>Construction\<close>

text \<open>
  Claim C8, as the claim states it, fails: \<^verbatim>\<open>NewFetcher\<close> checks nothing. Given a nil job and
  \<^verbatim>\<open>maxBatch = -1\<close> it returns a Fetcher holding both, the program has not faulted, and the
  fault comes at the first \<^verbatim>\<open>Fetch\<close>, at line 102.
\<close>

theorem NewFetcher_malformed_counterexample:
  "crashed (init cap_amd64 (NewFetcher (None :: (string, string) Job option) 100 (- 1))) = None \<and>
   fc_maxb (NewFetcher (None :: (string, string) Job option) 100 (- 1)) = - 1 \<and>
   fc_f (NewFetcher (None :: (string, string) Job option) 100 (- 1)) = None \<and>
   map_option crashed (run [Go_Fetch 0 ''a'', Run 0, Run 0, Run 0, Run 0]
      (init cap_amd64 (NewFetcher (None :: (string, string) Job option) 100 (- 1))))
     = Some (Some Makeslice_Cap)"
  by (simp add: run_defs)

text \<open>
  Claim C8, amended. \<^verbatim>\<open>NewFetcher\<close> accepts every configuration without failing and stores
  it as given; a malformed one faults at first use, inside \<^verbatim>\<open>Fetch\<close>. On a platform whose
  capacity limit is \<open>lim\<close>, the first \<^verbatim>\<open>Fetch\<close> panics at line 102, when the first batch is
  made, exactly when \<^verbatim>\<open>maxBatch\<close> is negative or above \<open>lim\<close> (whatever the job is). With a
  \<^verbatim>\<open>maxBatch\<close> from \<open>0\<close> to \<open>lim\<close> (zero is not refused either) and a nil job, nothing has
  faulted when the first batch is about to be executed, and the call of the nil function
  at line 154 panics.
\<close>

theorem NewFetcher_unvalidated:
  "crashed (init lim (NewFetcher job w mb)) = None \<and>
   fc_f (NewFetcher job w mb) = job \<and> fc_maxb (NewFetcher job w mb) = mb \<and>
   fc_maxw (NewFetcher job w mb) = w \<and>
   map_option crashed (run [Go_Fetch t i, Run t, Run t, Run t, Run t]
      (init lim (NewFetcher job w mb)))
     = Some (if mb < 0 \<or> lim < mb then Some Makeslice_Cap else None) \<and>
   map_option crashed (run [Go_Fetch t i, Run t, Run t, Run t, Run t, Run t, Run t, Run t, Run t,
        Timeout t, Run t, Run t, Run t, Run t]
      (init lim (NewFetcher None w mb)))
     = (if mb < 0 \<or> lim < mb then None else Some None) \<and>
   map_option crashed (run [Go_Fetch t i, Run t, Run t, Run t, Run t, Run t, Run t, Run t, Run t,
        Timeout t, Run t, Run t, Run t, Run t, Run t]
      (init lim (NewFetcher None w mb)))
     = (if mb < 0 \<or> lim < mb then None else Some (Some Nil_Func_Call))"
  by (simp add: run_defs)

section \<open>A Fetch whose id is already registered\<close>

text \<open>
  Claim C10. A goroutine that found its id in the registry at line 64 is at line 64, 66,
  67 or 68. Each of its steps leaves the registry, the pending-batch slot, every batch
  (identifier lists, results, errors, wait groups, channels) and the log of job
  invocations as they are, and touches no other goroutine; it stays on that path until it
  returns what it reads from the batch. The step of line 67 is taken only when the
  batch's wait group is at zero, and nothing on the path deletes a registry entry.
\<close>

theorem Fetch_registered_frame:
  assumes "step (Run t) s = Some s'"
    and "thr s t = F64 i \<and> fc_m s i = Some b \<or> thr s t = F66 i b \<or> thr s t = F67 i b \<or>
         thr s t = F68 i b"
  shows "fc_m s' = fc_m s \<and> fc_b s' = fc_b s \<and> heap s' = heap s \<and> nextb s' = nextb s \<and>
    calls s' = calls s \<and> (\<forall>t'. t' \<noteq> t \<longrightarrow> thr s' t' = thr s t') \<and>
    (thr s' t = F66 i b \<or> thr s' t = F67 i b \<and> \<not> fc_mu s' \<or>
     thr s' t = F68 i b \<and> b_wg (heap s b) = 0 \<or>
     thr s' t = ret_fetch i b s \<or> thr s' t = Panicked)"
  using assms by (auto simp: prim_defs step_def split: if_splits)

theorem Fetch_registered_frame_witness:
  "step (Run 1) (the (run registered_again (init cap_amd64 (NewFetcher (Some upper_job) 100 1000))))
     = Some (goto 1 (F66 ''a'' 0)
         (the (run registered_again (init cap_amd64 (NewFetcher (Some upper_job) 100 1000))))) \<and>
   thr (the (run registered_again (init cap_amd64 (NewFetcher (Some upper_job) 100 1000)))) 1
     = F64 ''a'' \<and>
   fc_m (the (run registered_again (init cap_amd64 (NewFetcher (Some upper_job) 100 1000)))) ''a''
     = Some 0 \<and>
   fc_m (goto 1 (F66 ''a'' 0)
         (the (run registered_again (init cap_amd64 (NewFetcher (Some upper_job) 100 1000)))))
     = fc_m (the (run registered_again (init cap_amd64 (NewFetcher (Some upper_job) 100 1000))))"
proof -
  let ?s = "the (run registered_again (init cap_amd64 (NewFetcher (Some upper_job) 100 1000)))"
  have st: "step (Run 1) ?s = Some (goto 1 (F66 ''a'' 0) ?s)"
    by (simp add: registered_again_def run_defs)
  have h: "thr ?s 1 = F64 ''a'' \<and> fc_m ?s ''a'' = Some 0"
    by (simp add: registered_again_def run_defs)
  from Fetch_registered_frame [OF st, of "''a''" 0] h st show ?thesis by blast
qed

end
